theory Spec2Isabelle
  imports Main "HOL-Library.Word"
begin

section \<open>Protonect for two devices: a shallow embedding of examples/Protonect.cpp\<close>

text \<open>
  The program opens two depth cameras, runs one capture thread per camera and reacts to
  two signals. The embedding follows the source function by function: the C library
  routines it calls, the argument loop of \<open>main\<close>, discovery and opening, the two signal
  handlers and the capture loop \<open>running\<close>. Everything the program does to its
  collaborators (the device library, the listener, the viewer, the console) is recorded
  as an event, in program order.
\<close>

subsection \<open>Compile-time switches\<close>

text \<open>
  The preprocessor symbols tested by the source. The two branches guarded by
  \<open>LIBFREENECT2_WITH_OPENCL_SUPPORT\<close> assign to an undeclared variable \<open>pipeline\<close>, so
  the file only compiles with that symbol undefined; the embedding takes their
  \<open>#else\<close> branches.
\<close>

record build =
  LIBFREENECT2_WITH_OPENGL_SUPPORT :: bool
  LIBFREENECT2_WITH_CUDA_SUPPORT :: bool
  EXAMPLES_WITH_OPENGL_SUPPORT :: bool

subsection \<open>C library: \<open>isspace\<close>, \<open>strtol\<close>, \<open>atoi\<close>\<close>

text \<open>
  \<open>strtol(str, NULL, base)\<close> after ISO C, for the two bases the program uses (0 and 10),
  on an LP64 platform: \<open>long\<close> and \<open>size_t\<close> have 64 bits, \<open>int\<close> has 32. White space
  is skipped, one sign is read, with base 0 the prefix picks base 16, 8 or 10, the
  longest run of digits is converted, and the result is clamped to the range of
  \<open>long\<close>. Without any digit the result is 0.
\<close>

definition isspace :: "char \<Rightarrow> bool" where
  "isspace c = ((of_char c :: nat) \<in> {32, 9, 10, 11, 12, 13})"

definition digit_val :: "char \<Rightarrow> nat option" where
  "digit_val c =
     (let n = (of_char c :: nat) in
      if 48 \<le> n \<and> n \<le> 57 then Some (n - 48)
      else if 97 \<le> n \<and> n \<le> 122 then Some (n - 87)
      else if 65 \<le> n \<and> n \<le> 90 then Some (n - 55)
      else None)"

definition is_digit_of :: "nat \<Rightarrow> char \<Rightarrow> bool" where
  "is_digit_of base c = (case digit_val c of None \<Rightarrow> False | Some d \<Rightarrow> d < base)"

fun digits_value :: "nat \<Rightarrow> nat \<Rightarrow> string \<Rightarrow> nat" where
  "digits_value base acc [] = acc"
| "digits_value base acc (c # cs) =
     (case digit_val c of
        None \<Rightarrow> acc
      | Some d \<Rightarrow> if d < base then digits_value base (acc * base + d) cs else acc)"

definition LONG_MAX :: int where
  "LONG_MAX = 2 ^ 63 - 1"

definition LONG_MIN :: int where
  "LONG_MIN = - (2 ^ 63)"

definition strip_sign :: "string \<Rightarrow> bool \<times> string" where
  "strip_sign s =
     (case s of
        [] \<Rightarrow> (False, s)
      | c # r \<Rightarrow> if c = CHR ''-'' then (True, r)
                 else if c = CHR ''+'' then (False, r)
                 else (False, s))"

definition pick_base :: "nat \<Rightarrow> string \<Rightarrow> nat \<times> string" where
  "pick_base base s =
     (if base = 0 then
        (case s of
           z # x # h # _ \<Rightarrow>
             if z = CHR ''0'' \<and> (x = CHR ''x'' \<or> x = CHR ''X'') \<and> is_digit_of 16 h
             then (16, drop 2 s)
             else if z = CHR ''0'' then (8, s) else (10, s)
         | z # _ \<Rightarrow> if z = CHR ''0'' then (8, s) else (10, s)
         | [] \<Rightarrow> (10, s))
      else (base, s))"

definition strtol :: "string \<Rightarrow> nat \<Rightarrow> int" where
  "strtol str base =
     (let (neg, s) = strip_sign (dropWhile isspace str);
          (b, ds) = pick_base base s;
          v = int (digits_value b 0 ds);
          r = (if neg then - v else v)
      in max LONG_MIN (min LONG_MAX r))"

text \<open>
  \<open>atoi(s)\<close> is \<open>(int) strtol(s, NULL, 10)\<close>; the conversion to \<open>int\<close> keeps the low
  32 bits.
\<close>

definition atoi :: "string \<Rightarrow> 32 word" where
  "atoi s = word_of_int (strtol s 10)"

subsection \<open>Data\<close>

type_synonym size_t = "64 word"

type_synonym addr = nat

text \<open>The packet pipelines the argument loop can construct, with their device id.\<close>

datatype packet_pipeline =
    CpuPacketPipeline
  | OpenGLPacketPipeline
  | CudaPacketPipeline "32 word"
  | CudaKdePacketPipeline "32 word"

text \<open>
  Modelled from the spec: the device handle of the sensor library, which is not part of
  the source file. A device is open or closed and streams colour, depth, both or
  neither; \<open>start\<close> turns both streams on, \<open>startStreams\<close> the given ones, \<open>stop\<close> turns
  both off and \<open>close\<close> closes the device. Whether a start succeeds is decided by the
  library, so it is an argument; the source never looks at the result of \<open>stop\<close> or
  \<open>close\<close>.
\<close>

record device =
  is_open :: bool
  streams_rgb :: bool
  streams_depth :: bool

definition dev_startStreams :: "bool \<Rightarrow> bool \<Rightarrow> bool \<Rightarrow> device \<Rightarrow> device" where
  "dev_startStreams ok rgb depth d =
     (if ok then d\<lparr>streams_rgb := rgb, streams_depth := depth\<rparr> else d)"

definition dev_start :: "bool \<Rightarrow> device \<Rightarrow> device" where
  "dev_start ok d = dev_startStreams ok True True d"

definition dev_stop :: "device \<Rightarrow> device" where
  "dev_stop d = d\<lparr>streams_rgb := False, streams_depth := False\<rparr>"

definition dev_close :: "device \<Rightarrow> device" where
  "dev_close d = d\<lparr>is_open := False, streams_rgb := False, streams_depth := False\<rparr>"

text \<open>What the program writes to the console.\<close>

datatype message =
    Usage
  | Gpu_before_pipeline
  | OpenGL_not_supported
  | OpenCL_not_supported
  | CUDA_not_supported
  | Unknown_argument string
  | Invalid_frame_count string
  | Both_streams_disabled
  | No_device_connected
  | Only_one_device
  | Failure_opening
  | Successfully_opened
  | Device_info addr
  | Timeout
  | Viewer_off_received size_t

text \<open>
  The frame types a listener is created for: the bits \<open>Color\<close>, \<open>Ir\<close> and \<open>Depth\<close> of
  the mask \<open>types\<close>, as the list of the bits that are set.
\<close>

datatype frame_type = Color | Ir | Depth

text \<open>The calls the program makes on its collaborators, and its console output.\<close>

datatype event =
    Print message
  | Enumerate_devices
  | Get_serial nat
  | Open_device string "packet_pipeline option"
  | Dev_start addr
  | Dev_start_streams addr bool bool
  | Dev_stop addr
  | Dev_close addr
  | Install_handlers
  | New_listener "frame_type list"
  | Set_listeners addr
  | New_registration addr
  | Delete_registration
  | Viewer_initialize
  | Wait_for_new_frame bool
  | Registration_apply
  | Viewer_add_frame string
  | Viewer_render
  | Listener_release

text \<open>
  The file-level variables of the program, the objects they point to, and the events so
  far. A null pointer is \<open>None\<close>.
\<close>

record globals =
  protonect_shutdown :: bool
  viewer_enabled :: bool
  enable_rgb :: bool
  enable_depth :: bool
  framemax :: size_t
  protonect_paused :: bool
  devtopause_1 :: "addr option"
  devtopause_2 :: "addr option"
  devices :: "addr \<Rightarrow> device"
  events :: "event list"

definition emit :: "event list \<Rightarrow> globals \<Rightarrow> globals" where
  "emit es g = g\<lparr>events := events g @ es\<rparr>"

text \<open>The initial values of the file-level variables; \<open>(size_t) -1\<close> means no frame limit.\<close>

definition closed_device :: device where
  "closed_device = \<lparr>is_open = False, streams_rgb = False, streams_depth = False\<rparr>"

definition initial_globals :: globals where
  "initial_globals =
     \<lparr>protonect_shutdown = False, viewer_enabled = True, enable_rgb = True,
      enable_depth = True, framemax = - 1, protonect_paused = False,
      devtopause_1 = None, devtopause_2 = None,
      devices = (\<lambda>_. closed_device), events = []\<rparr>"

text \<open>The local variables of \<open>main\<close>.\<close>

record locals =
  pipeline_1 :: "packet_pipeline option"
  pipeline_2 :: "packet_pipeline option"
  deviceId :: "32 word"
  serial_1 :: string
  serial_2 :: string
  dev_1 :: "addr option"
  dev_2 :: "addr option"

definition initial_locals :: locals where
  "initial_locals =
     \<lparr>pipeline_1 = None, pipeline_2 = None, deviceId = - 1,
      serial_1 = [], serial_2 = [], dev_1 = None, dev_2 = None\<rparr>"

text \<open>
  How a run of \<open>main\<close> ends before the capture threads exist: it returns an exit code, or
  it hands a null pointer to \<open>strtol\<close> or to the constructor of \<open>std::string\<close>, for
  which the language defines no behaviour.
\<close>

datatype exit = Return int | Strtol_of_null | String_of_null

subsection \<open>The argument loop of \<open>main\<close>\<close>

text \<open>
  \<open>argv\<close> holds \<open>argc\<close> strings followed by a null pointer: \<open>argv[argc]\<close> is null.
\<close>

definition argv_at :: "string list \<Rightarrow> nat \<Rightarrow> string option" where
  "argv_at argv i = (if i < length argv then Some (argv ! i) else None)"

definition all_digits :: "string \<Rightarrow> bool" where
  "all_digits arg = list_all (\<lambda>c. c \<in> set ''0123456789'') arg"

text \<open>
  One pass through the body of the \<open>for\<close> loop at index \<open>argI\<close>. It ends the program or
  gives the index and state with which the loop goes on (the loop adds one to the index).
\<close>

definition select_pipeline ::
  "packet_pipeline \<Rightarrow> globals \<times> locals \<Rightarrow> globals \<times> locals" where
  "select_pipeline p gl =
     (let (g, l) = gl in
      if pipeline_1 l = None \<or> pipeline_2 l = None
      then (g, l\<lparr>pipeline_1 := Some p, pipeline_2 := Some p\<rparr>)
      else (g, l))"

definition arg_step ::
  "build \<Rightarrow> string list \<Rightarrow> nat \<Rightarrow> globals \<times> locals \<Rightarrow>
   (exit \<times> globals) + (nat \<times> globals \<times> locals)" where
  "arg_step b argv argI gl =
     (let (g, l) = gl; arg = argv ! argI in
      if arg = ''-help'' \<or> arg = ''--help'' \<or> arg = ''-h'' \<or> arg = ''-v''
         \<or> arg = ''--version'' \<or> arg = ''-version''
      then Inl (Return 0, g)
      else if take 5 arg = ''-gpu='' then
        (if pipeline_1 l \<noteq> None \<or> pipeline_2 l \<noteq> None
         then Inl (Return (- 1), emit [Print Gpu_before_pipeline] g)
         else Inr (argI, g, l\<lparr>deviceId := atoi (drop 5 arg)\<rparr>))
      else if arg = ''cpu'' then Inr (argI, select_pipeline CpuPacketPipeline (g, l))
      else if arg = ''gl'' then
        (if LIBFREENECT2_WITH_OPENGL_SUPPORT b
         then Inr (argI, select_pipeline OpenGLPacketPipeline (g, l))
         else Inr (argI, emit [Print OpenGL_not_supported] g, l))
      else if arg = ''cl'' then Inr (argI, emit [Print OpenCL_not_supported] g, l)
      else if arg = ''clkde'' then Inr (argI, emit [Print OpenCL_not_supported] g, l)
      else if arg = ''cuda'' then
        (if LIBFREENECT2_WITH_CUDA_SUPPORT b
         then Inr (argI, select_pipeline (CudaPacketPipeline (deviceId l)) (g, l))
         else Inr (argI, emit [Print CUDA_not_supported] g, l))
      else if arg = ''cudakde'' then
        (if LIBFREENECT2_WITH_CUDA_SUPPORT b
         then Inr (argI, select_pipeline (CudaKdePacketPipeline (deviceId l)) (g, l))
         else Inr (argI, emit [Print CUDA_not_supported] g, l))
      else if all_digits arg then Inr (argI, g, l)
      else if arg = ''-noviewer'' \<or> arg = ''--noviewer''
      then Inr (argI, g\<lparr>viewer_enabled := False\<rparr>, l)
      else if arg = ''-norgb'' \<or> arg = ''--norgb''
      then Inr (argI, g\<lparr>enable_rgb := False\<rparr>, l)
      else if arg = ''-nodepth'' \<or> arg = ''--nodepth''
      then Inr (argI, g\<lparr>enable_depth := False\<rparr>, l)
      else if arg = ''-frames'' then
        (case argv_at argv (argI + 1) of
           None \<Rightarrow> Inl (Strtol_of_null, g)
         | Some v \<Rightarrow>
             let g' = g\<lparr>framemax := word_of_int (strtol v 0)\<rparr> in
             if framemax g' \<le> 0
             then Inl (Return (- 1), emit [Print (Invalid_frame_count v)] g')
             else Inr (argI + 1, g', l))
      else Inr (argI, emit [Print (Unknown_argument arg)] g, l))"

function args_loop ::
  "build \<Rightarrow> string list \<Rightarrow> nat \<Rightarrow> globals \<times> locals \<Rightarrow> (exit \<times> globals) + (globals \<times> locals)"
  where
  "args_loop b argv argI gl =
     (if argI < length argv then
        (case arg_step b argv argI gl of
           Inl stop \<Rightarrow> Inl stop
         | Inr (argI', gl') \<Rightarrow> args_loop b argv (argI' + 1) gl')
      else Inr gl)"
  by pat_completeness auto
termination
proof (relation "measure (\<lambda>(b, argv, argI, gl). length argv - argI)")
  show "wf (measure (\<lambda>(b, argv, argI, gl). length argv - argI))" by simp
next
  fix b argv argI gl x2 argI' gl'
  assume less: "argI < length argv"
    and step: "arg_step b argv argI gl = Inr x2" and x2: "(argI', gl') = x2"
  from step x2 have "argI \<le> argI'"
    by (auto simp: arg_step_def Let_def split: prod.splits if_splits option.splits)
  with less
  show "((b, argv, argI' + 1, gl'), (b, argv, argI, gl))
        \<in> measure (\<lambda>(b, argv, argI, gl). length argv - argI)"
    by simp
qed

declare args_loop.simps [simp del]

subsection \<open>Discovery and opening\<close>

text \<open>
  What \<open>main\<close> learns from the device library: the serial numbers found by the first and
  by the second call of \<open>enumerateDevices\<close> (the program calls it twice), and the pointers
  returned by the two calls of \<open>openDevice\<close>, null for a failure.
\<close>

record library =
  enumerated_first :: "string list"
  enumerated_second :: "string list"
  opened_1 :: "addr option"
  opened_2 :: "addr option"

text \<open>
  Modelled from the spec: \<open>getDeviceSerialNumber\<close> of the sensor library, which is not
  part of the source file. It answers with the serial number at the index in the latest
  enumeration. The program asks for an index out of range only when the two enumerations
  disagree; the model answers that with the empty string.
\<close>

definition getDeviceSerialNumber :: "string list \<Rightarrow> nat \<Rightarrow> string" where
  "getDeviceSerialNumber found idx = (if idx < length found then found ! idx else [])"

definition check_streams :: "globals \<times> locals \<Rightarrow> (exit \<times> globals) + (globals \<times> locals)" where
  "check_streams gl =
     (let (g, l) = gl in
      if \<not> enable_rgb g \<and> \<not> enable_depth g
      then Inl (Return (- 1), emit [Print Both_streams_disabled] g)
      else Inr (g, l))"

definition discovery ::
  "library \<Rightarrow> globals \<times> locals \<Rightarrow> (exit \<times> globals) + (globals \<times> locals)" where
  "discovery env gl =
     (let (g, l) = gl; g1 = emit [Enumerate_devices] g in
      if length (enumerated_first env) = 0
      then Inl (Return (- 1), emit [Print No_device_connected] g1)
      else
        let g2 = emit [Enumerate_devices] g1 in
        if length (enumerated_second env) = 1
        then Inl (Return (- 1), emit [Print Only_one_device] g2)
        else if serial_1 l = [] \<or> serial_2 l = []
        then Inr (emit [Get_serial 0, Get_serial 1] g2,
                  l\<lparr>serial_1 := getDeviceSerialNumber (enumerated_second env) 0,
                    serial_2 := getDeviceSerialNumber (enumerated_second env) 1\<rparr>)
        else Inr (g2, l))"

text \<open>
  \<open>openDevice\<close>: the call is recorded, and the device behind a non-null result is open
  and not streaming.
\<close>

definition openDevice ::
  "string \<Rightarrow> packet_pipeline option \<Rightarrow> addr option \<Rightarrow> globals \<Rightarrow> globals" where
  "openDevice serial pipeline result g =
     (let g' = emit [Open_device serial pipeline] g in
      case result of
        None \<Rightarrow> g'
      | Some a \<Rightarrow>
          g'\<lparr>devices := (devices g')
                (a := \<lparr>is_open = True, streams_rgb = False, streams_depth = False\<rparr>)\<rparr>)"

definition open_devices ::
  "library \<Rightarrow> globals \<times> locals \<Rightarrow> (exit \<times> globals) + (globals \<times> locals)" where
  "open_devices env gl =
     (let (g, l) = gl;
          with_pipeline = (pipeline_1 l \<noteq> None \<and> pipeline_2 l \<noteq> None);
          g1 = openDevice (serial_1 l) (if with_pipeline then pipeline_1 l else None)
                 (opened_1 env) g;
          g2 = openDevice (serial_2 l) (if with_pipeline then pipeline_2 l else None)
                 (opened_2 env) g1;
          l' = l\<lparr>dev_1 := opened_1 env, dev_2 := opened_2 env\<rparr>
      in if dev_1 l' = None \<or> dev_2 l' = None
         then Inl (Return (- 1), emit [Print Failure_opening] g2)
         else Inr (emit [Print Successfully_opened] g2, l'))"

text \<open>
  Lines 302 to 309: the devices are handed to the pause handler, the two handlers are
  installed and the shutdown flag is cleared.
\<close>

definition install :: "globals \<times> locals \<Rightarrow> globals \<times> locals" where
  "install gl =
     (let (g, l) = gl;
          g1 = g\<lparr>devtopause_1 := dev_1 l, devtopause_2 := dev_2 l\<rparr>;
          g2 = emit [Install_handlers] g1
      in (g2\<lparr>protonect_shutdown := False\<rparr>, l))"

text \<open>
  \<open>main\<close> up to the creation of the two capture threads: either the program has ended,
  or the session is set up. The first statement builds a string from \<open>argv[0]\<close>; the
  lines of the banner are one event. The choice of the logger (lines 140 to 157) touches
  nothing else in the program and is left out.
\<close>

definition main_setup ::
  "build \<Rightarrow> string list \<Rightarrow> library \<Rightarrow> (exit \<times> globals) + (globals \<times> locals)" where
  "main_setup b argv env =
     (if argv_at argv 0 = None then Inl (String_of_null, initial_globals)
      else
        case args_loop b argv 1 (emit [Print Usage] initial_globals, initial_locals) of
          Inl stop \<Rightarrow> Inl stop
        | Inr gl \<Rightarrow>
            (case check_streams gl of
               Inl stop \<Rightarrow> Inl stop
             | Inr gl1 \<Rightarrow>
                 (case discovery env gl1 of
                    Inl stop \<Rightarrow> Inl stop
                  | Inr gl2 \<Rightarrow>
                      (case open_devices env gl2 of
                         Inl stop \<Rightarrow> Inl stop
                       | Inr gl3 \<Rightarrow> Inr (install gl3)))))"

text \<open>A call of \<open>start\<close>, \<open>startStreams\<close>, \<open>stop\<close> or \<open>close\<close> on the device at an address.\<close>

definition call_start :: "bool \<Rightarrow> addr \<Rightarrow> globals \<Rightarrow> globals" where
  "call_start ok a g =
     emit [Dev_start a] (g\<lparr>devices := (devices g)(a := dev_start ok (devices g a))\<rparr>)"

definition call_startStreams :: "bool \<Rightarrow> addr \<Rightarrow> bool \<Rightarrow> bool \<Rightarrow> globals \<Rightarrow> globals" where
  "call_startStreams ok a rgb depth g =
     emit [Dev_start_streams a rgb depth]
       (g\<lparr>devices := (devices g)(a := dev_startStreams ok rgb depth (devices g a))\<rparr>)"

definition call_stop :: "addr \<Rightarrow> globals \<Rightarrow> globals" where
  "call_stop a g = emit [Dev_stop a] (g\<lparr>devices := (devices g)(a := dev_stop (devices g a))\<rparr>)"

definition call_close :: "addr \<Rightarrow> globals \<Rightarrow> globals" where
  "call_close a g =
     emit [Dev_close a] (g\<lparr>devices := (devices g)(a := dev_close (devices g a))\<rparr>)"

text \<open>
  Between set-up and the end of \<open>main\<close> the two capture threads run \<open>running\<close> side by
  side; below each is modelled on its own, with what the other does to the shared flag as
  an input. The end of \<open>main\<close>, after both threads have been joined: both devices are
  stopped, then both are closed, and the program returns 0.
\<close>

definition main_teardown :: "addr \<Rightarrow> addr \<Rightarrow> globals \<Rightarrow> exit \<times> globals" where
  "main_teardown d1 d2 g = (Return 0, call_close d2 (call_close d1 (call_stop d2 (call_stop d1 g))))"

subsection \<open>The signal handlers\<close>

definition sigint_handler :: "globals \<Rightarrow> globals" where
  "sigint_handler g = g\<lparr>protonect_shutdown := True\<rparr>"

text \<open>
  The handler of \<open>SIGUSR1\<close>. The pair \<open>oks\<close> says whether the two calls of \<open>start\<close>
  succeed, should the handler make them.
\<close>

definition sigusr1_handler :: "bool \<times> bool \<Rightarrow> globals \<Rightarrow> globals" where
  "sigusr1_handler oks g =
     (case (devtopause_1 g, devtopause_2 g) of
        (Some p1, Some p2) \<Rightarrow>
          (let g' = (if protonect_paused g
                     then call_start (snd oks) p2 (call_start (fst oks) p1 g)
                     else call_stop p2 (call_stop p1 g))
           in g'\<lparr>protonect_paused := \<not> protonect_paused g'\<rparr>)
      | _ \<Rightarrow> g)"

subsection \<open>The capture thread\<close>

text \<open>
  The shutdown flag is shared with the signal handler and with the other capture thread.
  What they do to it while this thread is between two of its own accesses is an input of
  the model: nothing, the interrupt handler runs, or the other thread stores a value.
\<close>

datatype interference = Nothing | Sigint | Other_thread_stores bool

fun interfere :: "interference \<Rightarrow> globals \<Rightarrow> globals" where
  "interfere Nothing g = g"
| "interfere Sigint g = sigint_handler g"
| "interfere (Other_thread_stores v) g = g\<lparr>protonect_shutdown := v\<rparr>"

text \<open>
  What happens around one pass through the loop, outside the thread's control: the
  interference before the loop condition is read, whether \<open>waitForNewFrame\<close> delivers a
  frame set within its ten seconds, the interference while it waits, the interference
  while the viewer renders, and what \<open>render\<close> returns.
\<close>

record pass =
  before_check :: interference
  wait_ok :: bool
  during_wait :: interference
  during_render :: interference
  render_result :: bool

definition loop_condition :: "globals \<Rightarrow> size_t \<Rightarrow> bool" where
  "loop_condition g framecount =
     (\<not> protonect_shutdown g \<and> (framemax g = - 1 \<or> framecount < framemax g))"

text \<open>
  Line 417, \<open>protonect_shutdown = protonect_shutdown || viewer.render()\<close>: the flag is
  read; only if it is false the viewer renders, and then the result of \<open>render\<close> is
  stored, whatever happened to the flag in the meantime.
\<close>

definition viewer_update :: "interference \<Rightarrow> bool \<Rightarrow> globals \<Rightarrow> globals" where
  "viewer_update during result g =
     (if protonect_shutdown g then g\<lparr>protonect_shutdown := True\<rparr>
      else (interfere during (emit [Viewer_render] g))\<lparr>protonect_shutdown := result\<rparr>)"

definition add_frames :: "globals \<Rightarrow> globals" where
  "add_frames g =
     (let g1 = (if enable_rgb g then emit [Viewer_add_frame ''RGB''] g else g);
          g2 = (if enable_depth g1
                then emit [Viewer_add_frame ''ir'', Viewer_add_frame ''depth''] g1 else g1)
      in if enable_rgb g2 \<and> enable_depth g2
         then emit [Viewer_add_frame ''registered''] g2 else g2)"

text \<open>
  The body of the \<open>while\<close> loop, entered after the loop condition held. \<open>Inl\<close> is the
  return on a timeout; \<open>Inr\<close> is the state with which the loop condition is read again.
\<close>

definition loop_body ::
  "build \<Rightarrow> pass \<Rightarrow> globals \<times> size_t \<Rightarrow> (globals \<times> size_t) + (globals \<times> size_t)" where
  "loop_body b p gc =
     (let (g, framecount) = gc in
      if \<not> wait_ok p
      then Inl (emit [Wait_for_new_frame False, Print Timeout] g, framecount)
      else
        let g1 = interfere (during_wait p) (emit [Wait_for_new_frame True] g);
            g2 = (if enable_rgb g1 \<and> enable_depth g1
                  then emit [Registration_apply] g1 else g1);
            framecount' = framecount + 1
        in if \<not> viewer_enabled g2 then
             let g3 = (if framecount' mod 100 = 0
                       then emit [Print (Viewer_off_received framecount')] g2 else g2)
             in Inr (emit [Listener_release] g3, framecount')
           else if EXAMPLES_WITH_OPENGL_SUPPORT b then
             let g3 = add_frames g2;
                 g4 = viewer_update (during_render p) (render_result p) g3
             in Inr (emit [Listener_release] g4, framecount')
           else Inr (emit [Listener_release] g2, framecount'))"

text \<open>
  How a capture thread ends. The loop takes one \<open>pass\<close> per evaluation of its condition;
  when the passes are used up and the thread has not ended, it is still running and the
  result is \<open>None\<close>.
\<close>

datatype thread_end = Start_failed | Wait_timed_out | Loop_left

fun capture_loop ::
  "build \<Rightarrow> pass list \<Rightarrow> globals \<times> size_t \<Rightarrow> (globals \<times> size_t) \<times> thread_end option" where
  "capture_loop b [] gc = (gc, None)"
| "capture_loop b (p # ps) gc =
     (let g = interfere (before_check p) (fst gc); framecount = snd gc in
      if loop_condition g framecount then
        (case loop_body b p (g, framecount) of
           Inl gc' \<Rightarrow> (gc', Some Wait_timed_out)
         | Inr gc' \<Rightarrow> capture_loop b ps gc')
      else ((g, framecount), Some Loop_left))"

definition frame_types :: "globals \<Rightarrow> frame_type list" where
  "frame_types g =
     (if enable_rgb g then [Color] else []) @ (if enable_depth g then [Ir, Depth] else [])"

text \<open>
  \<open>running(dev)\<close>: \<open>start_ok\<close> is the result of the start call, \<open>ps\<close> the passes of the
  loop. The result is the final state, the frame count and how the thread ended.
\<close>

definition running ::
  "build \<Rightarrow> bool \<Rightarrow> pass list \<Rightarrow> addr \<Rightarrow> globals \<Rightarrow> (globals \<times> size_t) \<times> thread_end option"
  where
  "running b start_ok ps dev g =
     (let types = frame_types g;
          g1 = (if enable_rgb g \<and> enable_depth g then call_start start_ok dev g
                else call_startStreams start_ok dev (enable_rgb g) (enable_depth g) g)
      in if \<not> start_ok then ((g1, 0), Some Start_failed)
         else
           let g2 = emit [New_listener types, Set_listeners dev, Print (Device_info dev),
                          New_registration dev] g1;
               g3 = (if EXAMPLES_WITH_OPENGL_SUPPORT b
                     then (if viewer_enabled g2 then emit [Viewer_initialize] g2 else g2)
                     else g2\<lparr>viewer_enabled := False\<rparr>)
           in case capture_loop b ps (g3, 0) of
                (gc, Some Loop_left) \<Rightarrow> ((emit [Delete_registration] (fst gc), snd gc), Some Loop_left)
              | r \<Rightarrow> r)"

subsection \<open>Reading the event list\<close>

text \<open>
  Whether a frame set is held, followed along a list of events. A successful wait
  acquires a frame set and a release gives it back. \<open>None\<close> is a violation: a wait while
  a frame set is still held, or a release with nothing held.
\<close>

fun frames_held :: "bool \<Rightarrow> event list \<Rightarrow> bool option" where
  "frames_held h [] = Some h"
| "frames_held h (Wait_for_new_frame ok # es) = (if h then None else frames_held ok es)"
| "frames_held h (Listener_release # es) = (if h then frames_held False es else None)"
| "frames_held h (_ # es) = frames_held h es"

text \<open>The events that neither acquire nor release a frame set.\<close>

fun neutral :: "event \<Rightarrow> bool" where
  "neutral (Wait_for_new_frame ok) = False"
| "neutral Listener_release = False"
| "neutral _ = True"

text \<open>The events between an earlier state and a later one.\<close>

definition new_events :: "globals \<Rightarrow> globals \<Rightarrow> event list" where
  "new_events g g' = drop (length (events g)) (events g')"

definition acquired :: "event list \<Rightarrow> nat" where
  "acquired es = count_list es (Wait_for_new_frame True)"

definition released :: "event list \<Rightarrow> nat" where
  "released es = count_list es Listener_release"

text \<open>
  A pass in which nobody asks for shutdown: no interference sets the flag, the frame set
  arrives in time, and the viewer does not ask to close.
\<close>

fun sets_flag :: "interference \<Rightarrow> bool" where
  "sets_flag Nothing = False"
| "sets_flag Sigint = True"
| "sets_flag (Other_thread_stores v) = v"

definition quiet :: "pass \<Rightarrow> bool" where
  "quiet p =
     (\<not> sets_flag (before_check p) \<and> \<not> sets_flag (during_wait p)
      \<and> \<not> sets_flag (during_render p) \<and> wait_ok p \<and> \<not> render_result p)"

definition quiet_pass :: pass where
  "quiet_pass =
     \<lparr>before_check = Nothing, wait_ok = True, during_wait = Nothing,
      during_render = Nothing, render_result = False\<rparr>"

text \<open>A device that streams colour and depth; a device that streams nothing.\<close>

definition streams_all :: "device \<Rightarrow> bool" where
  "streams_all d = (streams_rgb d \<and> streams_depth d)"

definition streams_nothing :: "device \<Rightarrow> bool" where
  "streams_nothing d = (\<not> streams_rgb d \<and> \<not> streams_depth d)"

subsection \<open>Concrete inputs\<close>

definition example_build :: build where
  "example_build =
     \<lparr>LIBFREENECT2_WITH_OPENGL_SUPPORT = True, LIBFREENECT2_WITH_CUDA_SUPPORT = False,
      EXAMPLES_WITH_OPENGL_SUPPORT = True\<rparr>"

text \<open>Two devices are connected and both open, at the addresses 1 and 2.\<close>

definition two_devices :: library where
  "two_devices =
     \<lparr>enumerated_first = [''001'', ''002''], enumerated_second = [''001'', ''002''],
      opened_1 = Some 1, opened_2 = Some 2\<rparr>"

text \<open>Two devices are connected; the first opens, the second does not.\<close>

definition second_open_fails :: library where
  "second_open_fails = two_devices\<lparr>opened_2 := None\<rparr>"

text \<open>No device is connected; one device is connected.\<close>

definition no_device :: library where
  "no_device =
     \<lparr>enumerated_first = [], enumerated_second = [], opened_1 = None, opened_2 = None\<rparr>"

definition one_device :: library where
  "one_device =
     \<lparr>enumerated_first = [''001''], enumerated_second = [''001''],
      opened_1 = None, opened_2 = None\<rparr>"

text \<open>How a run of \<open>main_setup\<close> ended, and the state it ended in.\<close>

fun exit_of :: "(exit \<times> globals) + (globals \<times> locals) \<Rightarrow> exit option" where
  "exit_of (Inl (e, g)) = Some e"
| "exit_of (Inr gl) = None"

fun final_globals :: "(exit \<times> globals) + (globals \<times> locals) \<Rightarrow> globals" where
  "final_globals (Inl (e, g)) = g"
| "final_globals (Inr (g, l)) = g"

text \<open>
  The session as \<open>main\<close> sets it up without arguments and with two devices: both devices
  are open, the handlers are installed, no thread has started a stream yet.
\<close>

definition opened_session :: globals where
  "opened_session = final_globals (main_setup example_build [''Protonect''] two_devices)"

text \<open>The same session after both capture threads have started their device.\<close>

definition streaming_session :: globals where
  "streaming_session = call_start True 2 (call_start True 1 opened_session)"

text \<open>
  The session as \<open>main\<close> sets it up for \<open>-nodepth\<close>, and the same session after both
  capture threads have run \<open>running\<close> up to their loop: each has started the colour stream
  of its device with \<open>startStreams\<close>.
\<close>

definition nodepth_session :: globals where
  "nodepth_session =
     final_globals (main_setup example_build [''Protonect'', ''-nodepth''] two_devices)"

definition nodepth_streaming_session :: globals where
  "nodepth_streaming_session =
     fst (fst (running example_build True [] 2
       (fst (fst (running example_build True [] 1 nodepth_session)))))"

text \<open>The session as \<open>main\<close> sets it up for a limit of three frame sets.\<close>

definition limited_session :: globals where
  "limited_session =
     final_globals (main_setup example_build [''Protonect'', ''-frames'', ''3''] two_devices)"


text \<open>
  A pass in which the interrupt arrives while the viewer renders, and \<open>render\<close> returns
  false.
\<close>

definition sigint_while_rendering :: pass where
  "sigint_while_rendering =
     \<lparr>before_check = Nothing, wait_ok = True, during_wait = Nothing,
      during_render = Sigint, render_result = False\<rparr>"

section \<open>Verified properties\<close>

subsection \<open>The argument loop\<close>

text \<open>
  Claim C10. If \<open>-frames\<close> is the last token, the argument after it is \<open>argv[argc]\<close>, the
  null entry. The loop body reads it and hands it to \<open>strtol\<close> unguarded: the pass
  through the body, and with it the loop, ends in \<open>Strtol_of_null\<close> and not in the
  return of an exit code with the message for an invalid frame count.
\<close>

theorem frames_as_last_token_reads_null:
  assumes "argI + 1 = length argv" and "argv ! argI = ''-frames''"
  shows "argv_at argv (argI + 1) = None
         \<and> arg_step b argv argI (g, l) = Inl (Strtol_of_null, g)
         \<and> args_loop b argv argI (g, l) = Inl (Strtol_of_null, g)"
proof -
  have null: "argv_at argv (argI + 1) = None"
    using assms(1) by (simp add: argv_at_def)
  have step: "arg_step b argv argI (g, l) = Inl (Strtol_of_null, g)"
    using assms(2) null by (simp add: arg_step_def all_digits_def)
  have "argI < length argv" using assms(1) by simp
  then have "args_loop b argv argI (g, l) = Inl (Strtol_of_null, g)"
    using step by (simp add: args_loop.simps)
  with null step show ?thesis by simp
qed

theorem frames_as_last_token_reads_null_witness:
  "1 + 1 = length [''Protonect'', ''-frames'']
   \<and> [''Protonect'', ''-frames''] ! 1 = ''-frames''
   \<and> main_setup example_build [''Protonect'', ''-frames''] two_devices
       = Inl (Strtol_of_null, emit [Print Usage] initial_globals)"
  using frames_as_last_token_reads_null
          [of 1 "[''Protonect'', ''-frames'']" example_build
              "emit [Print Usage] initial_globals" initial_locals]
  by (simp add: main_setup_def argv_at_def)

text \<open>
  Claim C9. The value after \<open>-frames\<close> is stored in the unsigned \<open>framemax\<close> before the
  test \<open>framemax <= 0\<close>, which an unsigned value passes unless it is 0. So \<open>-5\<close>, for
  which \<open>strtol\<close> returns -5, is not rejected: the session is set up with a frame limit
  of 2^64 - 5. The value \<open>0\<close> is rejected with exit code -1.
\<close>

theorem negative_frame_count_accepted:
  "strtol ''-5'' 0 = - 5
   \<and> exit_of (main_setup example_build [''Protonect'', ''-frames'', ''-5''] two_devices) = None
   \<and> framemax (final_globals
         (main_setup example_build [''Protonect'', ''-frames'', ''-5''] two_devices))
       = 18446744073709551611
   \<and> exit_of (main_setup example_build [''Protonect'', ''-frames'', ''0''] two_devices)
       = Some (Return (- 1))"
  by code_simp

subsection \<open>Opening the devices\<close>

text \<open>
  Claim C5. When the first device opens and the second does not, \<open>main\<close> prints the
  failure and returns -1 without a call of \<open>close\<close>: the events of the run end with the
  two calls of \<open>openDevice\<close> and the message, and the first device is still open.
\<close>

theorem partial_open_failure_leaves_device_open:
  "exit_of (main_setup example_build [''Protonect''] second_open_fails) = Some (Return (- 1))
   \<and> events (final_globals (main_setup example_build [''Protonect''] second_open_fails))
       = [Print Usage, Enumerate_devices, Enumerate_devices, Get_serial 0, Get_serial 1,
          Open_device ''001'' None, Open_device ''002'' None, Print Failure_opening]
   \<and> is_open (devices (final_globals
         (main_setup example_build [''Protonect''] second_open_fails)) 1)"
  by code_simp

subsection \<open>The pause handler\<close>

text \<open>
  Claim C1. In a session with both devices streaming, the handler of the pause signal
  itself calls \<open>stop\<close> on both devices: the two calls are the events of the handler,
  both devices have stopped streaming when it returns, and the flag is set.
\<close>

theorem pause_handler_stops_devices_itself:
  "exit_of (main_setup example_build [''Protonect''] two_devices) = None
   \<and> devtopause_1 streaming_session = Some 1 \<and> devtopause_2 streaming_session = Some 2
   \<and> streams_all (devices streaming_session 1) \<and> streams_all (devices streaming_session 2)
   \<and> new_events streaming_session (sigusr1_handler (True, True) streaming_session)
       = [Dev_stop 1, Dev_stop 2]
   \<and> streams_nothing (devices (sigusr1_handler (True, True) streaming_session) 1)
   \<and> streams_nothing (devices (sigusr1_handler (True, True) streaming_session) 2)
   \<and> protonect_paused (sigusr1_handler (True, True) streaming_session)"
  by code_simp

text \<open>Two pause signals always return \<open>protonect_paused\<close> to its value before the first.\<close>

lemma pause_twice_restores_flag:
  "protonect_paused (sigusr1_handler oks2 (sigusr1_handler oks1 g)) = protonect_paused g"
  by (cases "devtopause_1 g"; cases "devtopause_2 g")
     (simp_all add: sigusr1_handler_def call_start_def call_stop_def emit_def Let_def)

text \<open>
  Claim C7. In a session started with \<open>-nodepth\<close> both devices are open and registered
  with the handler, the session is not paused, and each capture thread has started its
  device with \<open>startStreams(true, false)\<close>: both devices stream colour and no depth. Two
  pause signals call \<open>stop\<close> and then \<open>start\<close> on both devices. The flag is back at its
  value, but \<open>start\<close> turns both streams on: afterwards both devices stream depth, which
  they did not before the first signal.
\<close>

theorem pause_resume_turns_depth_on:
  "exit_of (main_setup example_build [''Protonect'', ''-nodepth''] two_devices) = None
   \<and> devtopause_1 nodepth_streaming_session = Some 1
   \<and> devtopause_2 nodepth_streaming_session = Some 2
   \<and> is_open (devices nodepth_streaming_session 1)
   \<and> is_open (devices nodepth_streaming_session 2)
   \<and> \<not> protonect_paused nodepth_streaming_session
   \<and> Dev_start_streams 1 True False \<in> set (events nodepth_streaming_session)
   \<and> Dev_start_streams 2 True False \<in> set (events nodepth_streaming_session)
   \<and> streams_rgb (devices nodepth_streaming_session 1)
   \<and> \<not> streams_depth (devices nodepth_streaming_session 1)
   \<and> streams_rgb (devices nodepth_streaming_session 2)
   \<and> \<not> streams_depth (devices nodepth_streaming_session 2)
   \<and> new_events nodepth_streaming_session
         (sigusr1_handler (True, True)
            (sigusr1_handler (True, True) nodepth_streaming_session))
       = [Dev_stop 1, Dev_stop 2, Dev_start 1, Dev_start 2]
   \<and> \<not> protonect_paused
         (sigusr1_handler (True, True)
            (sigusr1_handler (True, True) nodepth_streaming_session))
   \<and> streams_depth (devices
         (sigusr1_handler (True, True)
            (sigusr1_handler (True, True) nodepth_streaming_session)) 1)
   \<and> streams_depth (devices
         (sigusr1_handler (True, True)
            (sigusr1_handler (True, True) nodepth_streaming_session)) 2)"
  by code_simp

subsection \<open>Discovery\<close>

text \<open>The argument loop never assigns the serial numbers.\<close>

lemma arg_step_serials:
  assumes "arg_step b argv argI (g, l) = Inr (argI', g', l')"
  shows "serial_1 l' = serial_1 l \<and> serial_2 l' = serial_2 l"
  using assms
  by (auto simp: arg_step_def select_pipeline_def Let_def split: if_splits option.splits)

lemma args_loop_serials:
  "args_loop b argv argI gl = Inr gl' \<Longrightarrow>
   serial_1 (snd gl') = serial_1 (snd gl) \<and> serial_2 (snd gl') = serial_2 (snd gl)"
proof (induction b argv argI gl rule: args_loop.induct)
  case (1 b argv argI gl)
  show ?case
  proof (cases "argI < length argv")
    case False
    with "1.prems" show ?thesis by (simp add: args_loop.simps)
  next
    case True
    show ?thesis
    proof (cases "arg_step b argv argI gl")
      case (Inl stop)
      with True "1.prems" show ?thesis by (simp add: args_loop.simps)
    next
      case (Inr next_state)
      obtain argI' g' l' where ns: "next_state = (argI', g', l')" by (cases next_state) auto
      from True Inr ns "1.prems" have run: "args_loop b argv (argI' + 1) (g', l') = Inr gl'"
        by (simp add: args_loop.simps)
      have "serial_1 (snd gl') = serial_1 l' \<and> serial_2 (snd gl') = serial_2 l'"
        using "1.IH" [OF True Inr, of argI' "(g', l')"] ns run by simp
      moreover have "serial_1 l' = serial_1 (snd gl) \<and> serial_2 l' = serial_2 (snd gl)"
        using arg_step_serials [of b argv argI "fst gl" "snd gl" argI' g' l'] Inr ns by simp
      ultimately show ?thesis by simp
    qed
  qed
qed

lemma args_loop_no_arguments:
  "args_loop b [prog] 1 gl = Inr gl"
  by (simp add: args_loop.simps)

text \<open>
  Claim C6. Let the argument loop and the check of the streams pass, and let both calls
  of \<open>enumerateDevices\<close> find the same devices. With no device \<open>main\<close> prints that no
  device is connected and returns -1; with one device it prints that only one device is
  connected and returns -1; with two or more devices the serial numbers at the indices 0
  and 1 of the enumeration become \<open>serial_1\<close> and \<open>serial_2\<close>, and \<open>main\<close> goes on to
  open these two.
\<close>

theorem discovery_three_valued:
  assumes first: "enumerated_first env = found" and second: "enumerated_second env = found"
    and args: "args_loop b argv 1 (emit [Print Usage] initial_globals, initial_locals) = Inr (g, l)"
    and streams: "enable_rgb g \<or> enable_depth g"
    and prog: "argv \<noteq> []"
  shows "(length found = 0 \<longrightarrow>
            main_setup b argv env
              = Inl (Return (- 1), emit [Print No_device_connected] (emit [Enumerate_devices] g)))
       \<and> (length found = 1 \<longrightarrow>
            main_setup b argv env
              = Inl (Return (- 1),
                     emit [Print Only_one_device]
                       (emit [Enumerate_devices] (emit [Enumerate_devices] g))))
       \<and> (2 \<le> length found \<longrightarrow>
            discovery env (g, l)
              = Inr (emit [Get_serial 0, Get_serial 1]
                       (emit [Enumerate_devices] (emit [Enumerate_devices] g)),
                     l\<lparr>serial_1 := found ! 0, serial_2 := found ! 1\<rparr>)
            \<and> main_setup b argv env
              = (case open_devices env
                        (emit [Get_serial 0, Get_serial 1]
                           (emit [Enumerate_devices] (emit [Enumerate_devices] g)),
                         l\<lparr>serial_1 := found ! 0, serial_2 := found ! 1\<rparr>) of
                   Inl stop \<Rightarrow> Inl stop
                 | Inr gl \<Rightarrow> Inr (install gl)))"
proof -
  have serials: "serial_1 l = []"
    using args_loop_serials [OF args] by (simp add: initial_locals_def)
  have checked: "check_streams (g, l) = Inr (g, l)"
    using streams by (auto simp: check_streams_def)
  have start: "argv_at argv 0 \<noteq> None"
    using prog by (simp add: argv_at_def)
  have none: "length found = 0 \<Longrightarrow>
      discovery env (g, l)
        = Inl (Return (- 1), emit [Print No_device_connected] (emit [Enumerate_devices] g))"
    using first by (simp add: discovery_def)
  have one: "length found = 1 \<Longrightarrow>
      discovery env (g, l)
        = Inl (Return (- 1),
               emit [Print Only_one_device]
                 (emit [Enumerate_devices] (emit [Enumerate_devices] g)))"
    using first second by (simp add: discovery_def Let_def)
  have two: "2 \<le> length found \<Longrightarrow>
      discovery env (g, l)
        = Inr (emit [Get_serial 0, Get_serial 1]
                 (emit [Enumerate_devices] (emit [Enumerate_devices] g)),
               l\<lparr>serial_1 := found ! 0, serial_2 := found ! 1\<rparr>)"
    using first second serials
    by (auto simp: discovery_def Let_def getDeviceSerialNumber_def)
  show ?thesis
    using none one two start args checked by (auto simp: main_setup_def)
qed

theorem discovery_three_valued_witness:
  "main_setup example_build [''Protonect''] no_device
     = Inl (Return (- 1),
            emit [Print No_device_connected]
              (emit [Enumerate_devices] (emit [Print Usage] initial_globals)))
   \<and> main_setup example_build [''Protonect''] one_device
     = Inl (Return (- 1),
            emit [Print Only_one_device]
              (emit [Enumerate_devices]
                 (emit [Enumerate_devices] (emit [Print Usage] initial_globals))))
   \<and> discovery two_devices (emit [Print Usage] initial_globals, initial_locals)
     = Inr (emit [Get_serial 0, Get_serial 1]
              (emit [Enumerate_devices]
                 (emit [Enumerate_devices] (emit [Print Usage] initial_globals))),
            initial_locals\<lparr>serial_1 := ''001'', serial_2 := ''002''\<rparr>)"
proof -
  have args: "args_loop example_build [''Protonect''] 1
                (emit [Print Usage] initial_globals, initial_locals)
              = Inr (emit [Print Usage] initial_globals, initial_locals)"
    by (rule args_loop_no_arguments)
  have streams: "enable_rgb (emit [Print Usage] initial_globals)
                 \<or> enable_depth (emit [Print Usage] initial_globals)"
    by (simp add: emit_def initial_globals_def)
  have prog: "[''Protonect''] \<noteq> []" by simp
  show ?thesis
    using discovery_three_valued [of no_device "[]", OF _ _ args streams prog]
      discovery_three_valued [of one_device "[''001'']", OF _ _ args streams prog]
      discovery_three_valued [of two_devices "[''001'', ''002'']", OF _ _ args streams prog]
    by (simp add: no_device_def one_device_def two_devices_def)
qed

subsection \<open>The capture thread\<close>

text \<open>
  The events of the thread are followed through the helpers of the loop body: each adds
  events to the end of the list, and only the wait and the release touch the frame set.
\<close>

lemma frames_held_append:
  "frames_held h (es @ es') =
     (case frames_held h es of None \<Rightarrow> None | Some h' \<Rightarrow> frames_held h' es')"
  by (induction h es rule: frames_held.induct) simp_all

lemma frames_held_neutral: "list_all neutral es \<Longrightarrow> frames_held h es = Some h"
  by (induction h es rule: frames_held.induct) simp_all

lemma acquired_neutral: "list_all neutral es \<Longrightarrow> acquired es = 0"
  unfolding acquired_def by (induction es) auto

lemma released_neutral: "list_all neutral es \<Longrightarrow> released es = 0"
  unfolding released_def by (induction es) auto

lemma acquired_append: "acquired (es @ es') = acquired es + acquired es'"
  by (simp add: acquired_def)

lemma released_append: "released (es @ es') = released es + released es'"
  by (simp add: released_def)

lemma interfere_events [simp]: "events (interfere i g) = events g"
  by (cases i) (simp_all add: sigint_handler_def)

lemma interfere_fields [simp]:
  "framemax (interfere i g) = framemax g"
  "viewer_enabled (interfere i g) = viewer_enabled g"
  "enable_rgb (interfere i g) = enable_rgb g"
  "enable_depth (interfere i g) = enable_depth g"
  by (cases i; simp add: sigint_handler_def)+

lemma interfere_flag_stays_false:
  "\<not> sets_flag i \<Longrightarrow> \<not> protonect_shutdown g \<Longrightarrow> \<not> protonect_shutdown (interfere i g)"
  by (cases i) (simp_all add: sigint_handler_def)

lemma emit_fields [simp]:
  "events (emit es g) = events g @ es"
  "framemax (emit es g) = framemax g"
  "protonect_shutdown (emit es g) = protonect_shutdown g"
  "viewer_enabled (emit es g) = viewer_enabled g"
  "enable_rgb (emit es g) = enable_rgb g"
  "enable_depth (emit es g) = enable_depth g"
  by (simp_all add: emit_def)

lemma add_frames_events:
  "\<exists>es. events (add_frames g) = events g @ es \<and> list_all neutral es"
  by (simp add: add_frames_def Let_def)

lemma add_frames_fields [simp]:
  "framemax (add_frames g) = framemax g"
  "protonect_shutdown (add_frames g) = protonect_shutdown g"
  by (simp_all add: add_frames_def Let_def)

lemma viewer_update_events:
  "\<exists>es. events (viewer_update i r g) = events g @ es \<and> list_all neutral es"
  by (simp add: viewer_update_def)

lemma viewer_update_framemax [simp]: "framemax (viewer_update i r g) = framemax g"
  by (simp add: viewer_update_def)

lemma viewer_update_quiet:
  "\<not> protonect_shutdown g \<Longrightarrow> \<not> r \<Longrightarrow> \<not> protonect_shutdown (viewer_update i r g)"
  by (simp add: viewer_update_def)

lemma loop_body_timeout:
  assumes "loop_body b p (g, c) = Inl (g', c')"
  shows "events g' = events g @ [Wait_for_new_frame False, Print Timeout] \<and> c' = c"
  using assms by (auto simp: loop_body_def Let_def split: if_splits)

lemma loop_body_events:
  assumes "loop_body b p (g, c) = Inr (g', c')"
  shows "\<exists>es. events g' = events g @ Wait_for_new_frame True # es @ [Listener_release]
              \<and> list_all neutral es"
proof -
  define g1 where "g1 = interfere (during_wait p) (emit [Wait_for_new_frame True] g)"
  define g2 where
    "g2 = (if enable_rgb g1 \<and> enable_depth g1 then emit [Registration_apply] g1 else g1)"
  from assms have wait: "wait_ok p"
    by (auto simp: loop_body_def Let_def split: if_splits)
  have "\<exists>rs. events g2 = events g @ Wait_for_new_frame True # rs \<and> list_all neutral rs"
    by (simp add: g2_def g1_def)
  then obtain rs where rs: "events g2 = events g @ Wait_for_new_frame True # rs"
    "list_all neutral rs" by blast
  consider (headless) "\<not> viewer_enabled g2"
    | (viewer) "viewer_enabled g2" "EXAMPLES_WITH_OPENGL_SUPPORT b"
    | (neither) "viewer_enabled g2" "\<not> EXAMPLES_WITH_OPENGL_SUPPORT b"
    by blast
  then show ?thesis
  proof cases
    case headless
    define g3 where
      "g3 = (if (c + 1) mod 100 = 0 then emit [Print (Viewer_off_received (c + 1))] g2 else g2)"
    have g': "g' = emit [Listener_release] g3"
      using assms wait headless unfolding g3_def g2_def g1_def
      by (auto simp: loop_body_def Let_def split: if_splits)
    have "\<exists>ms. events g3 = events g2 @ ms \<and> list_all neutral ms"
      by (simp add: g3_def)
    then obtain ms where ms: "events g3 = events g2 @ ms" "list_all neutral ms" by blast
    have "events g' = events g @ Wait_for_new_frame True # (rs @ ms) @ [Listener_release]"
      using g' rs ms by simp
    moreover have "list_all neutral (rs @ ms)" using rs ms by simp
    ultimately show ?thesis by blast
  next
    case viewer
    define g3 where "g3 = add_frames g2"
    define g4 where "g4 = viewer_update (during_render p) (render_result p) g3"
    have g': "g' = emit [Listener_release] g4"
      using assms wait viewer unfolding g4_def g3_def g2_def g1_def
      by (auto simp: loop_body_def Let_def split: if_splits)
    obtain fs where fs: "events g3 = events g2 @ fs" "list_all neutral fs"
      using add_frames_events [of g2] by (auto simp: g3_def)
    obtain vs where vs: "events g4 = events g3 @ vs" "list_all neutral vs"
      using viewer_update_events [of "during_render p" "render_result p" g3]
      by (auto simp: g4_def)
    have "events g' = events g @ Wait_for_new_frame True # (rs @ fs @ vs) @ [Listener_release]"
      using g' rs fs vs by simp
    moreover have "list_all neutral (rs @ fs @ vs)" using rs fs vs by simp
    ultimately show ?thesis by blast
  next
    case neither
    have g': "g' = emit [Listener_release] g2"
      using assms wait neither unfolding g2_def g1_def
      by (auto simp: loop_body_def Let_def split: if_splits)
    have "events g' = events g @ Wait_for_new_frame True # rs @ [Listener_release]"
      using g' rs by simp
    with rs show ?thesis by blast
  qed
qed

lemma loop_body_count:
  assumes "loop_body b p (g, c) = Inr (g', c')"
  shows "c' = c + 1"
  using assms by (auto simp: loop_body_def Let_def split: if_splits)

lemma body_events_held:
  assumes "list_all neutral es"
  shows "frames_held False (Wait_for_new_frame True # es @ [Listener_release]) = Some False"
    and "acquired (Wait_for_new_frame True # es @ [Listener_release]) = 1"
    and "released (Wait_for_new_frame True # es @ [Listener_release]) = 1"
  using assms acquired_neutral [OF assms] released_neutral [OF assms]
  by (simp_all add: frames_held_append frames_held_neutral acquired_def released_def)

lemma capture_loop_events:
  "capture_loop b ps (g, c) = ((g', c'), r) \<Longrightarrow>
   \<exists>es. events g' = events g @ es \<and> frames_held False es = Some False
        \<and> acquired es = released es"
proof (induction ps arbitrary: g c)
  case Nil
  then have "events g' = events g @ []" by simp
  moreover have "frames_held False [] = Some False" "acquired [] = released []"
    by (simp_all add: acquired_def released_def)
  ultimately show ?case by blast
next
  case (Cons p ps)
  define g0 where "g0 = interfere (before_check p) g"
  show ?case
  proof (cases "loop_condition g0 c")
    case False
    with Cons.prems have "g' = g0" by (simp add: g0_def Let_def)
    then have "events g' = events g @ []" by (simp add: g0_def)
    moreover have "frames_held False [] = Some False" "acquired [] = released []"
      by (simp_all add: acquired_def released_def)
    ultimately show ?thesis by blast
  next
    case True
    show ?thesis
    proof (cases "loop_body b p (g0, c)")
      case (Inl timed_out)
      with True Cons.prems have "loop_body b p (g0, c) = Inl (g', c')"
        by (simp add: g0_def Let_def)
      then have "events g' = events g @ [Wait_for_new_frame False, Print Timeout]"
        using loop_body_timeout [of b p g0 c g' c'] by (simp add: g0_def)
      moreover have "frames_held False [Wait_for_new_frame False, Print Timeout] = Some False"
        "acquired [Wait_for_new_frame False, Print Timeout]
         = released [Wait_for_new_frame False, Print Timeout]"
        by (simp_all add: acquired_def released_def)
      ultimately show ?thesis by blast
    next
      case (Inr again)
      obtain g1 c1 where again: "again = (g1, c1)" by (cases again) auto
      from True Inr again Cons.prems have rest: "capture_loop b ps (g1, c1) = ((g', c'), r)"
        by (simp add: g0_def Let_def)
      obtain bs where bs: "events g1 = events g @ Wait_for_new_frame True # bs @ [Listener_release]"
        "list_all neutral bs"
        using loop_body_events [of b p g0 c g1 c1] Inr again by (auto simp: g0_def)
      obtain es where es: "events g' = events g1 @ es" "frames_held False es = Some False"
        "acquired es = released es"
        using Cons.IH [OF rest] by blast
      let ?all = "(Wait_for_new_frame True # bs @ [Listener_release]) @ es"
      have "events g' = events g @ ?all" using bs es by simp
      moreover have "frames_held False ?all = Some False"
        using body_events_held(1) [OF bs(2)] es(2) by (simp only: frames_held_append) simp
      moreover have "acquired ?all = released ?all"
        using body_events_held(2,3) [OF bs(2)] es(3)
        by (simp only: acquired_append released_append)
      ultimately show ?thesis by blast
    qed
  qed
qed

lemma new_events_append: "events g' = events g @ es \<Longrightarrow> new_events g g' = es"
  by (simp add: new_events_def)

text \<open>
  Claim C2. In every run of \<open>running\<close>, whatever the build, the configuration and the
  inputs, the events of the thread keep the discipline of the listener: a frame set is
  released only while one is held, no wait begins while one is held, and none is held
  when the thread ends or pauses between two passes. So every frame set that was
  acquired is released exactly once before the next wait, and the thread has released as
  many frame sets as it has acquired.
\<close>

theorem frame_set_released_exactly_once:
  "frames_held False (new_events g (fst (fst (running b start_ok ps dev g)))) = Some False
   \<and> acquired (new_events g (fst (fst (running b start_ok ps dev g))))
       = released (new_events g (fst (fst (running b start_ok ps dev g))))"
proof (cases start_ok)
  case False
  have "\<exists>es. events (fst (fst (running b start_ok ps dev g))) = events g @ es \<and> list_all neutral es"
    using False by (simp add: running_def Let_def call_start_def call_startStreams_def)
  then obtain es where es: "events (fst (fst (running b start_ok ps dev g))) = events g @ es"
    "list_all neutral es" by blast
  show ?thesis
    using new_events_append [OF es(1)] es(2)
    by (simp add: frames_held_neutral acquired_neutral released_neutral)
next
  case True
  define g1 where
    "g1 = (if enable_rgb g \<and> enable_depth g then call_start start_ok dev g
           else call_startStreams start_ok dev (enable_rgb g) (enable_depth g) g)"
  define g2 where
    "g2 = emit [New_listener (frame_types g), Set_listeners dev, Print (Device_info dev),
                New_registration dev] g1"
  define g3 where
    "g3 = (if EXAMPLES_WITH_OPENGL_SUPPORT b
           then (if viewer_enabled g2 then emit [Viewer_initialize] g2 else g2)
           else g2\<lparr>viewer_enabled := False\<rparr>)"
  have "\<exists>ss. events g3 = events g @ ss \<and> list_all neutral ss"
    by (simp add: g3_def g2_def g1_def call_start_def call_startStreams_def)
  then obtain ss where ss: "events g3 = events g @ ss" "list_all neutral ss" by blast
  obtain g' c' r where run: "capture_loop b ps (g3, 0) = ((g', c'), r)"
    by (metis prod.exhaust)
  obtain es where es: "events g' = events g3 @ es" "frames_held False es = Some False"
    "acquired es = released es"
    using capture_loop_events [OF run] by blast
  have "\<exists>ds. events (fst (fst (running b start_ok ps dev g))) = events g' @ ds
             \<and> list_all neutral ds"
    using True run unfolding g3_def g2_def g1_def
    by (cases r; cases "the r") (auto simp: running_def Let_def split: if_splits)
  then obtain ds where ds: "events (fst (fst (running b start_ok ps dev g))) = events g' @ ds"
    "list_all neutral ds" by blast
  have all: "events (fst (fst (running b start_ok ps dev g))) = events g @ (ss @ es @ ds)"
    using ss es ds by simp
  have "frames_held False (ss @ es @ ds) = Some False"
    using ss(2) es(2) ds(2) by (simp add: frames_held_append frames_held_neutral)
  moreover have "acquired (ss @ es @ ds) = released (ss @ es @ ds)"
    using ss(2) es(3) ds(2)
    by (simp add: acquired_append released_append acquired_neutral released_neutral)
  ultimately show ?thesis
    using new_events_append [OF all] by simp
qed





text \<open>Passes in which nobody asks for shutdown.\<close>

lemma quiet_body:
  assumes "quiet p" and "\<not> protonect_shutdown g"
  shows "\<exists>g'. loop_body b p (g, c) = Inr (g', c + 1) \<and> \<not> protonect_shutdown g'
              \<and> framemax g' = framemax g \<and> acquired (events g') = acquired (events g) + 1"
proof -
  have wait: "wait_ok p" using assms(1) by (simp add: quiet_def)
  then have "\<exists>g'. loop_body b p (g, c) = Inr (g', c + 1)"
    by (simp add: loop_body_def Let_def)
  then obtain g' where body: "loop_body b p (g, c) = Inr (g', c + 1)" by blast
  have still: "\<not> protonect_shutdown (interfere (during_wait p) (emit [Wait_for_new_frame True] g))"
    using assms by (simp add: interfere_flag_stays_false quiet_def)
  have flag: "\<not> protonect_shutdown g'"
    using body wait still assms(1)
    by (auto simp: loop_body_def Let_def quiet_def viewer_update_quiet split: if_splits)
  have limit: "framemax g' = framemax g"
    using body wait by (auto simp: loop_body_def Let_def split: if_splits)
  obtain es where es: "events g' = events g @ Wait_for_new_frame True # es @ [Listener_release]"
    "list_all neutral es"
    using loop_body_events [OF body] by blast
  have "acquired (events g') = acquired (events g) + 1"
    using es(1) body_events_held(2) [OF es(2)] by (simp only: acquired_append)
  with body flag limit show ?thesis by blast
qed

lemma unat_succ_below:
  fixes c N :: size_t
  assumes "c < N"
  shows "unat (c + 1) = unat c + 1"
proof -
  have "unat c < unat N" using assms by (simp add: word_less_nat_alt)
  moreover have "unat N < 2 ^ 64" using unsigned_less [of N, where ?'a = nat] by simp
  ultimately have "unat c + 1 < 2 ^ 64" by simp
  then show ?thesis by (simp add: unat_word_ariths)
qed

lemma frame_limit_loop:
  assumes "framemax g = N" and "N \<noteq> - 1" and "c \<le> N"
    and "\<not> protonect_shutdown g" and "list_all quiet ps"
  shows "(unat N - unat c < length ps \<longrightarrow>
            (\<exists>g'. capture_loop b ps (g, c) = ((g', N), Some Loop_left)
                  \<and> acquired (events g') = acquired (events g) + (unat N - unat c)))
       \<and> (length ps \<le> unat N - unat c \<longrightarrow>
            (\<exists>g' c'. capture_loop b ps (g, c) = ((g', c'), None)
                  \<and> acquired (events g') = acquired (events g) + length ps))"
  using assms
proof (induction ps arbitrary: g c)
  case Nil
  then show ?case by simp
next
  case (Cons p ps)
  define g0 where "g0 = interfere (before_check p) g"
  have q: "quiet p" and qs: "list_all quiet ps" using Cons.prems(5) by simp_all
  have flag0: "\<not> protonect_shutdown g0"
    using q Cons.prems(4) by (simp add: g0_def interfere_flag_stays_false quiet_def)
  have limit0: "framemax g0 = N" using Cons.prems(1) by (simp add: g0_def)
  have events0: "events g0 = events g" by (simp add: g0_def)
  have cond: "loop_condition g0 c \<longleftrightarrow> c < N"
    using flag0 limit0 Cons.prems(2) by (simp add: loop_condition_def)
  show ?case
  proof (cases "c < N")
    case False
    with Cons.prems(3) have "c = N" by simp
    moreover have "capture_loop b (p # ps) (g, c) = ((g0, c), Some Loop_left)"
      using cond False by (simp add: g0_def Let_def)
    ultimately show ?thesis using events0 by simp
  next
    case True
    obtain g1 where body: "loop_body b p (g0, c) = Inr (g1, c + 1)"
      and flag1: "\<not> protonect_shutdown g1" and limit1: "framemax g1 = framemax g0"
      and acq1: "acquired (events g1) = acquired (events g0) + 1"
      using quiet_body [OF q flag0, of b c] by blast
    have step: "capture_loop b (p # ps) (g, c) = capture_loop b ps (g1, c + 1)"
      using cond True body by (simp add: g0_def Let_def)
    have le: "c + 1 \<le> N" using True by (simp add: inc_le)
    have un: "unat (c + 1) = unat c + 1" using True by (rule unat_succ_below)
    have lt: "unat c < unat N" using True by (simp add: word_less_nat_alt)
    have IH: "(unat N - unat (c + 1) < length ps \<longrightarrow>
            (\<exists>g'. capture_loop b ps (g1, c + 1) = ((g', N), Some Loop_left)
                  \<and> acquired (events g') = acquired (events g1) + (unat N - unat (c + 1))))
       \<and> (length ps \<le> unat N - unat (c + 1) \<longrightarrow>
            (\<exists>g' c'. capture_loop b ps (g1, c + 1) = ((g', c'), None)
                  \<and> acquired (events g') = acquired (events g1) + length ps))"
      using Cons.IH [of g1 "c + 1"] limit1 limit0 Cons.prems(2) le flag1 qs by simp
    show ?thesis
      using IH step acq1 events0 un lt by (auto simp: Suc_diff_Suc)
  qed
qed

lemma no_limit_loop:
  assumes "framemax g = - 1" and "\<not> protonect_shutdown g" and "list_all quiet ps"
  shows "\<exists>g' c'. capture_loop b ps (g, c) = ((g', c'), None)
               \<and> acquired (events g') = acquired (events g) + length ps"
  using assms
proof (induction ps arbitrary: g c)
  case Nil
  then show ?case by simp
next
  case (Cons p ps)
  define g0 where "g0 = interfere (before_check p) g"
  have q: "quiet p" and qs: "list_all quiet ps" using Cons.prems(3) by simp_all
  have flag0: "\<not> protonect_shutdown g0"
    using q Cons.prems(2) by (simp add: g0_def interfere_flag_stays_false quiet_def)
  have limit0: "framemax g0 = - 1" using Cons.prems(1) by (simp add: g0_def)
  have events0: "events g0 = events g" by (simp add: g0_def)
  have cond: "loop_condition g0 c"
    using flag0 limit0 by (simp add: loop_condition_def)
  obtain g1 where body: "loop_body b p (g0, c) = Inr (g1, c + 1)"
    and flag1: "\<not> protonect_shutdown g1" and limit1: "framemax g1 = framemax g0"
    and acq1: "acquired (events g1) = acquired (events g0) + 1"
    using quiet_body [OF q flag0, of b c] by blast
  have step: "capture_loop b (p # ps) (g, c) = capture_loop b ps (g1, c + 1)"
    using cond body by (simp add: g0_def Let_def)
  obtain g' c' where "capture_loop b ps (g1, c + 1) = ((g', c'), None)"
    "acquired (events g') = acquired (events g1) + length ps"
    using Cons.IH [of g1 "c + 1"] limit1 limit0 flag1 qs by auto
  then show ?case using step acq1 events0 by simp
qed


lemma acquired_new_events:
  assumes "events g' = events g @ es" and "acquired (events g') = acquired (events g) + k"
  shows "acquired (new_events g g') = k"
  using assms by (simp add: new_events_def acquired_append)

lemma running_started:
  "\<exists>g3 ss. events g3 = events g @ ss \<and> list_all neutral ss
      \<and> framemax g3 = framemax g \<and> protonect_shutdown g3 = protonect_shutdown g
      \<and> running b True ps dev g =
          (case capture_loop b ps (g3, 0) of
             (gc, Some Loop_left) \<Rightarrow>
               ((emit [Delete_registration] (fst gc), snd gc), Some Loop_left)
           | r \<Rightarrow> r)"
proof -
  define g1 where
    "g1 = (if enable_rgb g \<and> enable_depth g then call_start True dev g
           else call_startStreams True dev (enable_rgb g) (enable_depth g) g)"
  define g2 where
    "g2 = emit [New_listener (frame_types g), Set_listeners dev, Print (Device_info dev),
                New_registration dev] g1"
  define g3 where
    "g3 = (if EXAMPLES_WITH_OPENGL_SUPPORT b
           then (if viewer_enabled g2 then emit [Viewer_initialize] g2 else g2)
           else g2\<lparr>viewer_enabled := False\<rparr>)"
  have "\<exists>ss. events g3 = events g @ ss \<and> list_all neutral ss"
    by (simp add: g3_def g2_def g1_def call_start_def call_startStreams_def)
  moreover have "framemax g3 = framemax g" "protonect_shutdown g3 = protonect_shutdown g"
    by (simp_all add: g3_def g2_def g1_def call_start_def call_startStreams_def)
  moreover have "running b True ps dev g =
          (case capture_loop b ps (g3, 0) of
             (gc, Some Loop_left) \<Rightarrow>
               ((emit [Delete_registration] (fst gc), snd gc), Some Loop_left)
           | r \<Rightarrow> r)"
    by (simp add: running_def Let_def g3_def g2_def g1_def)
  ultimately show ?thesis by blast
qed

text \<open>
  Claim C8. Let the thread start its device, let the shutdown flag be clear and let all
  passes be quiet: every frame set arrives, and neither a signal, nor the other thread,
  nor the viewer asks for shutdown. With a frame limit (\<open>framemax\<close> is not the value
  \<open>(size_t) -1\<close>) and more passes than the limit, the thread leaves the loop with a frame
  count equal to the limit, having acquired exactly that many frame sets; with no more
  passes than the limit it is still running and has acquired one frame set per pass.
  Without a frame limit it is still running after any number of passes.
\<close>

theorem frame_limit_ends_thread_after_exactly_N:
  assumes "\<not> protonect_shutdown g" and "list_all quiet ps"
  shows "(framemax g \<noteq> - 1 \<and> unat (framemax g) < length ps \<longrightarrow>
            (\<exists>g'. running b True ps dev g = ((g', framemax g), Some Loop_left)
                  \<and> acquired (new_events g g') = unat (framemax g)))
       \<and> (framemax g \<noteq> - 1 \<and> length ps \<le> unat (framemax g) \<longrightarrow>
            (\<exists>g' c'. running b True ps dev g = ((g', c'), None)
                  \<and> acquired (new_events g g') = length ps))
       \<and> (framemax g = - 1 \<longrightarrow>
            (\<exists>g' c'. running b True ps dev g = ((g', c'), None)
                  \<and> acquired (new_events g g') = length ps))"
proof -
  obtain g3 ss where ss: "events g3 = events g @ ss" "list_all neutral ss"
    and limit3: "framemax g3 = framemax g" and flag3: "\<not> protonect_shutdown g3"
    and run: "running b True ps dev g =
          (case capture_loop b ps (g3, 0) of
             (gc, Some Loop_left) \<Rightarrow>
               ((emit [Delete_registration] (fst gc), snd gc), Some Loop_left)
           | r \<Rightarrow> r)"
    using running_started [of g b ps dev] assms(1) by auto
  have base: "acquired (events g3) = acquired (events g)"
    using ss by (simp add: acquired_append acquired_neutral)
  have reached: "\<exists>g'. running b True ps dev g = ((g', framemax g), Some Loop_left)
                  \<and> acquired (new_events g g') = unat (framemax g)"
    if lim: "framemax g \<noteq> - 1" and enough: "unat (framemax g) < length ps"
  proof -
    obtain g4 where loop: "capture_loop b ps (g3, 0) = ((g4, framemax g), Some Loop_left)"
      and acq: "acquired (events g4) = acquired (events g3) + unat (framemax g)"
      using frame_limit_loop [OF limit3 lim _ flag3 assms(2), of 0 b] enough by auto
    obtain es where es: "events g4 = events g3 @ es"
      using capture_loop_events [OF loop] by blast
    let ?g' = "emit [Delete_registration] g4"
    have "running b True ps dev g = ((?g', framemax g), Some Loop_left)"
      using run loop by simp
    moreover have "events ?g' = events g @ (ss @ es @ [Delete_registration])"
      using ss es by simp
    moreover have "acquired (events ?g') = acquired (events g) + unat (framemax g)"
      using acq base by (simp add: acquired_append acquired_def)
    ultimately show ?thesis using acquired_new_events by blast
  qed
  have going: "\<exists>g' c'. running b True ps dev g = ((g', c'), None)
                  \<and> acquired (new_events g g') = length ps"
    if loop: "capture_loop b ps (g3, 0) = ((g4, c4), None)"
      and acq: "acquired (events g4) = acquired (events g3) + length ps" for g4 c4
  proof -
    obtain es where es: "events g4 = events g3 @ es"
      using capture_loop_events [OF loop] by blast
    have "running b True ps dev g = ((g4, c4), None)"
      using run loop by simp
    moreover have "events g4 = events g @ (ss @ es)" using ss es by simp
    moreover have "acquired (events g4) = acquired (events g) + length ps"
      using acq base by simp
    ultimately show ?thesis using acquired_new_events by blast
  qed
  have below: "\<exists>g' c'. running b True ps dev g = ((g', c'), None)
                  \<and> acquired (new_events g g') = length ps"
    if lim: "framemax g \<noteq> - 1" and short: "length ps \<le> unat (framemax g)"
    using frame_limit_loop [OF limit3 lim _ flag3 assms(2), of 0 b] short going by auto
  have unlimited: "\<exists>g' c'. running b True ps dev g = ((g', c'), None)
                  \<and> acquired (new_events g g') = length ps"
    if none: "framemax g = - 1"
    using no_limit_loop [OF _ flag3 assms(2), of b 0] limit3 none going by auto
  from reached below unlimited show ?thesis by blast
qed

theorem frame_limit_ends_thread_after_exactly_N_witness:
  "\<not> protonect_shutdown limited_session \<and> list_all quiet (replicate 5 quiet_pass)
   \<and> framemax limited_session = 3
   \<and> snd (running example_build True (replicate 5 quiet_pass) 1 limited_session)
       = Some Loop_left
   \<and> snd (fst (running example_build True (replicate 5 quiet_pass) 1 limited_session)) = 3
   \<and> acquired (new_events limited_session
         (fst (fst (running example_build True (replicate 5 quiet_pass) 1 limited_session))))
       = 3"
proof -
  have flag: "\<not> protonect_shutdown limited_session" by code_simp
  have quiet: "list_all quiet (replicate 5 quiet_pass)" by code_simp
  have limit: "framemax limited_session = 3" by code_simp
  have enough: "framemax limited_session \<noteq> - 1
                \<and> unat (framemax limited_session) < length (replicate 5 quiet_pass)"
    by (simp add: limit)
  show ?thesis
    using frame_limit_ends_thread_after_exactly_N [OF flag quiet, of example_build 1]
      enough flag quiet limit
    by auto
qed

text \<open>
  Where the flag cannot be lost: the interrupt handler only sets it, and the update of
  line 417 keeps a set flag when nothing happens to the flag while the viewer renders.
\<close>

lemma sigint_handler_sets_flag: "protonect_shutdown (sigint_handler g)"
  by (simp add: sigint_handler_def)

lemma viewer_update_undisturbed:
  "protonect_shutdown (viewer_update Nothing result g) = (protonect_shutdown g \<or> result)"
  by (simp add: viewer_update_def)

lemma viewer_update_keeps_flag_read:
  "protonect_shutdown g \<Longrightarrow> protonect_shutdown (viewer_update during result g)"
  by (simp add: viewer_update_def)

text \<open>
  Claim C3. Line 417 reads the flag, lets the viewer render and then stores the result
  of \<open>render\<close>. When the interrupt handler sets the flag while the viewer renders, the
  store puts it back to false: the thread loses the request, goes on to acquire two more
  frame sets in the next two passes and is still running.
\<close>

theorem shutdown_lost_while_rendering:
  "\<not> protonect_shutdown opened_session
   \<and> protonect_shutdown (interfere Sigint (emit [Viewer_render] opened_session))
   \<and> \<not> protonect_shutdown (viewer_update Sigint False opened_session)
   \<and> snd (running example_build True [sigint_while_rendering, quiet_pass, quiet_pass] 1
           opened_session) = None
   \<and> acquired (new_events opened_session
         (fst (fst (running example_build True [sigint_while_rendering, quiet_pass, quiet_pass] 1
            opened_session)))) = 3
   \<and> \<not> protonect_shutdown
         (fst (fst (running example_build True [sigint_while_rendering, quiet_pass, quiet_pass] 1
            opened_session)))"
  by code_simp

end
